theory Spec2Isabelle
  imports Main
begin

section \<open>JavaScript values and the library operations the reducers call\<close>

text \<open>
  The reducers of \<^verbatim>\<open>src/editor/state.js\<close> compare identifiers with \<^verbatim>\<open>===\<close>, read arrays
  out of range and test values for truthiness. The values that occur in those places are
  strings, \<^verbatim>\<open>null\<close> and \<^verbatim>\<open>undefined\<close> (a missing property reads as \<^verbatim>\<open>undefined\<close>).
\<close>

datatype jsval = Undefined | Null | Str string

text \<open>Truthiness: \<^verbatim>\<open>undefined\<close>, \<^verbatim>\<open>null\<close> and the empty string are falsy.\<close>

fun truthy :: "jsval \<Rightarrow> bool" where
  "truthy Undefined = False"
| "truthy Null = False"
| "truthy (Str s) = (s \<noteq> [])"

text \<open>A value used as a property key (\<^verbatim>\<open>{ [ uid ]: ... }\<close>, \<^verbatim>\<open>state[ uid ]\<close>) is turned into a string.\<close>

fun key_of :: "jsval \<Rightarrow> string" where
  "key_of Undefined = ''undefined''"
| "key_of Null = ''null''"
| "key_of (Str s) = s"

text \<open>\<^verbatim>\<open>Array.prototype.indexOf\<close>: the first index holding the value, or \<open>-1\<close>.\<close>

fun indexOf_from :: "'a list \<Rightarrow> 'a \<Rightarrow> int \<Rightarrow> int" where
  "indexOf_from [] x i = - 1"
| "indexOf_from (y # ys) x i = (if y = x then i else indexOf_from ys x (i + 1))"

definition indexOf :: "'a list \<Rightarrow> 'a \<Rightarrow> int" where
  "indexOf xs x = indexOf_from xs x 0"

text \<open>
  \<^verbatim>\<open>Array.prototype.slice\<close>: a negative bound counts from the end, every bound is clamped
  to the array, a missing second bound is the length.
\<close>

definition slice_bound :: "nat \<Rightarrow> int \<Rightarrow> nat" where
  "slice_bound len k = (if k < 0 then nat (max (int len + k) 0) else min (nat k) len)"

definition slice :: "'a list \<Rightarrow> int \<Rightarrow> int option \<Rightarrow> 'a list" where
  "slice xs start stop =
     take ((case stop of None \<Rightarrow> length xs | Some e \<Rightarrow> slice_bound (length xs) e)
             - slice_bound (length xs) start)
          (drop (slice_bound (length xs) start) xs)"

text \<open>\<^verbatim>\<open>state[ i ]\<close> on an array of identifiers: \<^verbatim>\<open>undefined\<close> outside the array.\<close>

definition at :: "jsval list \<Rightarrow> int \<Rightarrow> jsval" where
  "at xs i = (if 0 \<le> i \<and> i < int (length xs) then xs ! nat i else Undefined)"

text \<open>lodash \<^verbatim>\<open>last\<close>: the last element, \<^verbatim>\<open>undefined\<close> for an empty array.\<close>

definition last_of :: "jsval list \<Rightarrow> jsval" where
  "last_of xs = (case xs of [] \<Rightarrow> Undefined | _ \<Rightarrow> last xs)"

text \<open>lodash \<^verbatim>\<open>without\<close>: a new array with every element equal to the value left out.\<close>

definition without :: "'a list \<Rightarrow> 'a \<Rightarrow> 'a list" where
  "without xs v = filter (\<lambda>x. x \<noteq> v) xs"

section \<open>Data\<close>

text \<open>A plain object with string properties (post data, block attributes, focus config).\<close>

type_synonym obj = "(string \<times> string) list"

text \<open>
  A block node. Every property may be missing: the tests load nodes that carry a
  \<^verbatim>\<open>uid\<close> only, and \<^verbatim>\<open>UPDATE_BLOCK\<close> sends a partial block as \<^verbatim>\<open>updates\<close>. A missing
  \<^verbatim>\<open>uid\<close> reads as \<open>Undefined\<close>.
\<close>

record block =
  block_uid :: jsval
  blockType :: "string option"
  attributes :: "obj option"

definition empty_block :: block where
  "empty_block = \<lparr>block_uid = Undefined, blockType = None, attributes = None\<rparr>"

text \<open>Object spread \<^verbatim>\<open>{ ...a, ...b }\<close>: the properties of \<open>b\<close> win over those of \<open>a\<close>.\<close>

definition spread :: "block \<Rightarrow> block \<Rightarrow> block" where
  "spread a b =
     \<lparr>block_uid = (if block_uid b = Undefined then block_uid a else block_uid b),
      blockType = (case blockType b of None \<Rightarrow> blockType a | Some t \<Rightarrow> Some t),
      attributes = (case attributes b of None \<Rightarrow> attributes a | Some t \<Rightarrow> Some t)\<rparr>"

text \<open>
  The block map \<^verbatim>\<open>blocksByUid\<close>: an object from keys to blocks. A key can be present with
  the value \<^verbatim>\<open>undefined\<close> (\<open>Some None\<close>), which \<^verbatim>\<open>SWITCH_BLOCK_TYPE\<close> writes when the
  action has no block.
\<close>

type_synonym bmap = "string \<rightharpoonup> block option"

text \<open>Spreading \<^verbatim>\<open>state[ key ]\<close>: a missing key and an \<^verbatim>\<open>undefined\<close> value spread nothing.\<close>

definition lookup_block :: "bmap \<Rightarrow> string \<Rightarrow> block" where
  "lookup_block m k = (case m k of Some (Some b) \<Rightarrow> b | _ \<Rightarrow> empty_block)"

text \<open>
  lodash \<^verbatim>\<open>keyBy( nodes, 'uid' )\<close>: a new object with each node stored under its
  \<^verbatim>\<open>uid\<close>, a later node overwriting an earlier one with the same key; \<^verbatim>\<open>{}\<close> when the
  collection is \<^verbatim>\<open>undefined\<close>.
\<close>

fun keyBy_from :: "bmap \<Rightarrow> block list \<Rightarrow> bmap" where
  "keyBy_from m [] = m"
| "keyBy_from m (b # bs) = keyBy_from (m(key_of (block_uid b) \<mapsto> Some b)) bs"

definition keyBy :: "block list option \<Rightarrow> bmap" where
  "keyBy nodes = (case nodes of None \<Rightarrow> Map.empty | Some bs \<Rightarrow> keyBy_from Map.empty bs)"

text \<open>
  lodash decides with \<^verbatim>\<open>isKey\<close> whether a value names a property or a property path.
  \<^verbatim>\<open>null\<close> and \<^verbatim>\<open>undefined\<close> are keys. A string is a key unless the regular expression
  \<^verbatim>\<open>reIsDeepProp\<close> finds a dot or a bracket group in it, and it is a key in any case when
  the object has a property of that name. The regular expression finds a match exactly
  when the string has a dot, or a closing bracket somewhere after an opening one (the
  innermost such pair encloses no bracket).
\<close>

definition reIsDeepProp :: "string \<Rightarrow> bool" where
  "reIsDeepProp s =
     (CHR ''.'' \<in> set s \<or> CHR '']'' \<in> set (dropWhile (\<lambda>c. c \<noteq> CHR ''['') s))"

definition isKey :: "jsval \<Rightarrow> bmap \<Rightarrow> bool" where
  "isKey v m = (case v of Str s \<Rightarrow> \<not> reIsDeepProp s \<or> s \<in> dom m | _ \<Rightarrow> True)"

text \<open>
  lodash \<^verbatim>\<open>omit( state, uid )\<close>: a new object. For a key it is the object without that
  key. What it leaves out for a string that is not a key depends on the lodash release
  (the string is read as a property path by the releases that support paths, and as a
  key by the others); lodash is not part of the sources, and that part is the parameter
  \<open>unset\<close>. In either case \<^verbatim>\<open>omit\<close> returns an object.
\<close>

definition omit :: "(bmap \<Rightarrow> string \<Rightarrow> bmap) \<Rightarrow> bmap \<Rightarrow> jsval \<Rightarrow> bmap" where
  "omit unset m k = (if isKey k m then m(key_of k := None) else unset m (key_of k))"

text \<open>An \<^verbatim>\<open>omit\<close> without property paths deletes the key in every case.\<close>

definition drop_key :: "bmap \<Rightarrow> string \<Rightarrow> bmap" where
  "drop_key m k = m(k := None)"

text \<open>
  An action: a JavaScript object with a \<^verbatim>\<open>type\<close> and the properties the reducers read.
  A property the action does not have is \<open>Undefined\<close> or \<open>None\<close>.
\<close>

record action =
  a_type :: jsval
  a_post :: "obj option"
  a_blockNodes :: "block list option"
  a_uid :: jsval
  a_updates :: "block option"
  a_block :: "block option"
  a_after :: jsval
  a_selected :: "bool option"
  a_hovered :: "bool option"
  a_config :: "obj option"
  a_mode :: jsval
  a_error :: jsval
  a_isNew :: "bool option"

text \<open>
  Where a reducer's result comes from. Objects and arrays are compared by reference:
  \<open>Same\<close> is \<^verbatim>\<open>return state\<close> (the reference that came in), \<open>Fresh v\<close> is an object or
  array built by the reducer (a literal, \<^verbatim>\<open>map\<close>, \<^verbatim>\<open>keyBy\<close>, \<^verbatim>\<open>omit\<close>, \<^verbatim>\<open>without\<close>), and
  \<open>Given v\<close> is a reference taken from the action.
\<close>

datatype 'a ret = Same | Fresh 'a | Given 'a

fun resolve :: "'a \<Rightarrow> 'a ret \<Rightarrow> 'a" where
  "resolve s Same = s"
| "resolve s (Fresh v) = v"
| "resolve s (Given v) = v"

text \<open>Reading a property of \<^verbatim>\<open>undefined\<close> throws.\<close>

datatype js_error = TypeError

text \<open>
  Selection state: \<^verbatim>\<open>{}\<close> or \<^verbatim>\<open>{ uid, typing, focus }\<close>. The states of \<^verbatim>\<open>blocksByUid\<close>,
  \<^verbatim>\<open>blockOrder\<close>, \<^verbatim>\<open>selectedBlock\<close>, \<^verbatim>\<open>isSidebarOpened\<close> and \<^verbatim>\<open>api\<close> are objects, arrays
  and booleans: their types have no \<^verbatim>\<open>undefined\<close>, the only value their default
  parameters replace.
\<close>

record selection =
  sel_uid :: jsval
  typing :: "bool option"
  focus :: "obj option"

definition empty_selection :: selection where
  "empty_selection = \<lparr>sel_uid = Undefined, typing = None, focus = None\<rparr>"

text \<open>Network request state: \<^verbatim>\<open>{}\<close> or \<^verbatim>\<open>{ requesting, successful, error, isNew }\<close>.\<close>

record api_state =
  requesting :: "bool option"
  successful :: "bool option"
  error :: jsval
  isNew :: "bool option"

section \<open>The reducers of src/editor/state.js\<close>

text \<open>
  \<^verbatim>\<open>post\<close> (lines 27-37). The state of \<^verbatim>\<open>post\<close> can be \<^verbatim>\<open>undefined\<close> (\<open>None\<close>): the
  default parameter \<^verbatim>\<open>state = {}\<close> then makes a new empty object, and returning the state
  returns that object.
\<close>

definition post_state :: "obj option \<Rightarrow> obj option ret" where
  "post_state state = (case state of None \<Rightarrow> Fresh (Some []) | Some _ \<Rightarrow> Same)"

definition post :: "obj option \<Rightarrow> action \<Rightarrow> obj option ret" where
  "post state action =
     (if a_type action = Str ''EDIT_POST'' then
        (case a_post action of Some p \<Rightarrow> Given (Some p) | None \<Rightarrow> post_state state)
      else if a_type action = Str ''POST_UPDATE_REQUEST_SUCCESS'' then
        Given (a_post action)
      else post_state state)"

text \<open>\<^verbatim>\<open>blocksByUid\<close> (lines 39-70).\<close>

definition blocksByUid ::
  "(bmap \<Rightarrow> string \<Rightarrow> bmap) \<Rightarrow> bmap \<Rightarrow> action \<Rightarrow> js_error + bmap ret" where
  "blocksByUid unset state action =
     (if a_type action = Str ''EDIT_POST'' then
        Inr (Fresh (keyBy (a_blockNodes action)))
      else if a_type action = Str ''UPDATE_BLOCK'' then
        Inr (Fresh (state(key_of (a_uid action) \<mapsto>
          Some (spread (lookup_block state (key_of (a_uid action)))
                  (case a_updates action of None \<Rightarrow> empty_block | Some u \<Rightarrow> u)))))
      else if a_type action = Str ''INSERT_BLOCK'' then
        (case a_block action of
           None \<Rightarrow> Inl TypeError
         | Some b \<Rightarrow> Inr (Fresh (state(key_of (block_uid b) \<mapsto> Some b))))
      else if a_type action = Str ''SWITCH_BLOCK_TYPE'' then
        Inr (Fresh (state(key_of (a_uid action) \<mapsto> a_block action)))
      else if a_type action = Str ''REMOVE_BLOCK'' then
        Inr (Fresh (omit unset state (a_uid action)))
      else Inr Same)"

text \<open>
  \<^verbatim>\<open>blockOrder\<close> (lines 72-118). The position of an insert is computed before the
  array literal reads \<^verbatim>\<open>action.block.uid\<close>; neither \<^verbatim>\<open>indexOf\<close> nor \<^verbatim>\<open>slice\<close> throws.
\<close>

definition blockOrder :: "jsval list \<Rightarrow> action \<Rightarrow> js_error + jsval list ret" where
  "blockOrder state action =
     (if a_type action = Str ''EDIT_POST'' then
        (case a_blockNodes action of
           None \<Rightarrow> Inl TypeError
         | Some nodes \<Rightarrow> Inr (Fresh (map block_uid nodes)))
      else if a_type action = Str ''INSERT_BLOCK'' then
        (let position = (if truthy (a_after action)
                         then indexOf state (a_after action) + 1
                         else int (length state))
         in case a_block action of
              None \<Rightarrow> Inl TypeError
            | Some b \<Rightarrow>
                Inr (Fresh (slice state 0 (Some position) @ [block_uid b] @ slice state position None)))
      else if a_type action = Str ''MOVE_BLOCK_UP'' then
        (if a_uid action = at state 0 then Inr Same
         else
           (let index = indexOf state (a_uid action);
                swappedUid = at state (index - 1)
            in Inr (Fresh (slice state 0 (Some (index - 1)) @ [a_uid action, swappedUid]
                           @ slice state (index + 1) None))))
      else if a_type action = Str ''MOVE_BLOCK_DOWN'' then
        (if a_uid action = last_of state then Inr Same
         else
           (let index = indexOf state (a_uid action);
                swappedUid = at state (index + 1)
            in Inr (Fresh (slice state 0 (Some index) @ [swappedUid, a_uid action]
                           @ slice state (index + 2) None))))
      else if a_type action = Str ''REMOVE_BLOCK'' then
        Inr (Fresh (without state (a_uid action)))
      else Inr Same)"

text \<open>\<^verbatim>\<open>selectedBlock\<close> (lines 128-174).\<close>

definition selectedBlock :: "selection \<Rightarrow> action \<Rightarrow> js_error + selection ret" where
  "selectedBlock state action =
     (if a_type action = Str ''TOGGLE_BLOCK_SELECTED'' then
        (if a_selected action \<noteq> Some True then
           (if sel_uid state = a_uid action then Inr (Fresh empty_selection) else Inr Same)
         else if a_uid action = sel_uid state then Inr Same
         else Inr (Fresh \<lparr>sel_uid = a_uid action, typing = Some False, focus = Some []\<rparr>))
      else if a_type action = Str ''MOVE_BLOCK_UP'' \<or> a_type action = Str ''MOVE_BLOCK_DOWN'' then
        (if a_uid action = sel_uid state then Inr Same
         else Inr (Fresh \<lparr>sel_uid = a_uid action, typing = Some False, focus = Some []\<rparr>))
      else if a_type action = Str ''INSERT_BLOCK'' then
        (case a_block action of
           None \<Rightarrow> Inl TypeError
         | Some b \<Rightarrow> Inr (Fresh \<lparr>sel_uid = block_uid b, typing = Some False, focus = Some []\<rparr>))
      else if a_type action = Str ''UPDATE_FOCUS'' then
        Inr (Fresh \<lparr>sel_uid = a_uid action,
                    typing = (if sel_uid state = a_uid action then typing state else Some False),
                    focus = (case a_config action of Some c \<Rightarrow> Some c | None \<Rightarrow> Some [])\<rparr>)
      else if a_type action = Str ''START_TYPING'' then
        (if a_uid action \<noteq> sel_uid state then
           Inr (Fresh \<lparr>sel_uid = a_uid action, typing = Some True, focus = Some []\<rparr>)
         else Inr (Fresh (state\<lparr>typing := Some True\<rparr>)))
      else Inr Same)"

text \<open>
  The hover state, the mode and the sidebar flag are primitive values (a string or
  \<^verbatim>\<open>null\<close>, a string, a boolean), which \<^verbatim>\<open>===\<close> compares by value: returning the
  state is returning an equal value. \<^verbatim>\<open>hoveredBlock\<close> is lines 183-198, \<^verbatim>\<open>mode\<close> lines
  207-214, \<^verbatim>\<open>isSidebarOpened\<close> lines 216-223. The hover state and the mode can be
  \<^verbatim>\<open>undefined\<close>; the default parameters \<^verbatim>\<open>state = null\<close> and \<^verbatim>\<open>state = 'visual'\<close> replace
  an \<^verbatim>\<open>undefined\<close> state (and no other) before the body runs.
\<close>

definition default_to :: "jsval \<Rightarrow> jsval \<Rightarrow> jsval" where
  "default_to d state = (if state = Undefined then d else state)"

definition hoveredBlock :: "jsval \<Rightarrow> action \<Rightarrow> jsval" where
  "hoveredBlock state action =
     (if a_type action = Str ''TOGGLE_BLOCK_HOVERED'' then
        (if a_hovered action = Some True then a_uid action else Null)
      else if a_type action = Str ''TOGGLE_BLOCK_SELECTED'' then
        (if a_selected action = Some True then Null else default_to Null state)
      else if a_type action = Str ''START_TYPING'' then Null
      else default_to Null state)"



text \<open>\<^verbatim>\<open>api\<close> (lines 233-261).\<close>

definition api :: "api_state \<Rightarrow> action \<Rightarrow> api_state ret" where
  "api state action =
     (if a_type action = Str ''POST_UPDATE_REQUEST'' then
        Fresh \<lparr>requesting = Some True, successful = Some False, error = Null,
               isNew = a_isNew action\<rparr>
      else if a_type action = Str ''POST_UPDATE_REQUEST_SUCCESS'' then
        Fresh \<lparr>requesting = Some False, successful = Some True, error = Null,
               isNew = a_isNew action\<rparr>
      else if a_type action = Str ''POST_UPDATE_REQUEST_FAILURE'' then
        Fresh \<lparr>requesting = Some False, successful = Some True, error = a_error action,
               isNew = a_isNew action\<rparr>
      else Same)"

section \<open>The undoable editor reducer\<close>

text \<open>
  \<^verbatim>\<open>editor\<close> is \<^verbatim>\<open>combineUndoableReducers( { post, blocksByUid, blockOrder },
  { resetTypes: [ 'EDIT_POST' ] } )\<close>. The three slices make up one snapshot of the
  document content.
\<close>

record snapshot =
  s_post :: "obj option"
  s_blocksByUid :: bmap
  s_blockOrder :: "jsval list"

record 's history =
  past :: "'s list"
  present :: 's
  future :: "'s list"

fun is_Same :: "'a ret \<Rightarrow> bool" where
  "is_Same Same = True"
| "is_Same _ = False"

text \<open>
  The object of slice reducers handed to the combinator: every slice is applied to its
  part of the snapshot, a slice that throws makes the whole call throw. The flag tells
  whether some slice returned another reference than the one it was given.
\<close>

definition editor_slices ::
  "(bmap \<Rightarrow> string \<Rightarrow> bmap) \<Rightarrow> snapshot \<Rightarrow> action \<Rightarrow> js_error + snapshot \<times> bool" where
  "editor_slices unset s action =
     (case blocksByUid unset (s_blocksByUid s) action of
        Inl e \<Rightarrow> Inl e
      | Inr rm \<Rightarrow>
          (case blockOrder (s_blockOrder s) action of
             Inl e \<Rightarrow> Inl e
           | Inr ro \<Rightarrow>
               Inr (\<lparr>s_post = resolve (s_post s) (post (s_post s) action),
                     s_blocksByUid = resolve (s_blocksByUid s) rm,
                     s_blockOrder = resolve (s_blockOrder s) ro\<rparr>,
                    \<not> (is_Same (post (s_post s) action) \<and> is_Same rm \<and> is_Same ro))))"

text \<open>Whether the action's type is one of the listed kinds.\<close>

definition handles :: "string list \<Rightarrow> action \<Rightarrow> bool" where
  "handles types a = (a_type a \<in> Str ` set types)"

text \<open>The bound on the retained past: the oldest entries (the front) are dropped.\<close>

definition keep_recent :: "nat option \<Rightarrow> 'a list \<Rightarrow> 'a list" where
  "keep_recent depth xs = (case depth of None \<Rightarrow> xs | Some n \<Rightarrow> drop (length xs - n) xs)"

text \<open>
  Modelled from the spec: \<^verbatim>\<open>combineUndoableReducers\<close> of \<^verbatim>\<open>utils/undoable-reducer\<close> is
  imported by \<^verbatim>\<open>state.js\<close> and is not among the sources. The definition follows the
  History Engine of the specification: the next present is computed from the slices; a
  reset kind replaces the present and clears past and future; an undo moves the present
  to the front of the future and takes the most recent past entry (a no-op on an empty
  past); a redo is the mirror image; an event that changes no slice returns the same
  record; any other event pushes the present onto the past, bounded by the depth, and
  clears the future. The kinds that trigger undo and redo and the depth are left open by
  the specification and are parameters here. The most recent past entry is the last of
  the list.
\<close>

definition combineUndoableReducers ::
  "('s \<Rightarrow> action \<Rightarrow> js_error + 's \<times> bool) \<Rightarrow> string list \<Rightarrow> string \<Rightarrow> string \<Rightarrow> nat option
     \<Rightarrow> 's history \<Rightarrow> action \<Rightarrow> js_error + 's history ret" where
  "combineUndoableReducers slices resetTypes undoType redoType depth state action =
     (case slices (present state) action of
        Inl e \<Rightarrow> Inl e
      | Inr (nextPresent, changed) \<Rightarrow>
          if handles resetTypes action then
            Inr (Fresh \<lparr>past = [], present = nextPresent, future = []\<rparr>)
          else if a_type action = Str undoType then
            (case rev (past state) of
               [] \<Rightarrow> Inr Same
             | p # ps \<Rightarrow>
                 Inr (Fresh \<lparr>past = rev ps, present = p,
                             future = present state # future state\<rparr>))
          else if a_type action = Str redoType then
            (case future state of
               [] \<Rightarrow> Inr Same
             | f # fs \<Rightarrow>
                 Inr (Fresh \<lparr>past = past state @ [present state], present = f, future = fs\<rparr>))
          else if \<not> changed then Inr Same
          else
            Inr (Fresh \<lparr>past = keep_recent depth (past state @ [present state]),
                        present = nextPresent, future = []\<rparr>))"

definition editor ::
  "(bmap \<Rightarrow> string \<Rightarrow> bmap) \<Rightarrow> string \<Rightarrow> string \<Rightarrow> nat option
     \<Rightarrow> snapshot history \<Rightarrow> action \<Rightarrow> js_error + snapshot history ret"
  where
  "editor unset undoType redoType depth =
     combineUndoableReducers (editor_slices unset) [''EDIT_POST''] undoType redoType depth"

section \<open>The event vocabulary and the notions the statements use\<close>


definition blocksByUid_types :: "string list" where
  "blocksByUid_types =
     [''EDIT_POST'', ''UPDATE_BLOCK'', ''INSERT_BLOCK'', ''SWITCH_BLOCK_TYPE'', ''REMOVE_BLOCK'']"

definition blockOrder_types :: "string list" where
  "blockOrder_types =
     [''EDIT_POST'', ''INSERT_BLOCK'', ''MOVE_BLOCK_UP'', ''MOVE_BLOCK_DOWN'', ''REMOVE_BLOCK'']"






fun is_str :: "jsval \<Rightarrow> bool" where
  "is_str (Str s) = True"
| "is_str _ = False"

definition has_uid :: "block \<Rightarrow> bool" where
  "has_uid b = is_str (block_uid b)"

text \<open>
  The declared event vocabulary: the sixteen kinds with the payload each one carries.
  Identifiers are strings, a load carries its list of blocks, an insert and a type switch
  carry their block, an insert may name an anchor.
\<close>

definition declared :: "action \<Rightarrow> bool" where
  "declared a =
     (case a_type a of
        Str t \<Rightarrow>
          if t = ''EDIT_POST'' then
            (case a_blockNodes a of None \<Rightarrow> False | Some nodes \<Rightarrow> list_all has_uid nodes)
          else if t = ''UPDATE_BLOCK'' then is_str (a_uid a) \<and> a_updates a \<noteq> None
          else if t = ''INSERT_BLOCK'' then
            (case a_block a of None \<Rightarrow> False | Some b \<Rightarrow> has_uid b)
            \<and> (a_after a = Undefined \<or> is_str (a_after a))
          else if t = ''SWITCH_BLOCK_TYPE'' then
            is_str (a_uid a) \<and> (case a_block a of None \<Rightarrow> False | Some b \<Rightarrow> has_uid b)
          else if t \<in> set [''REMOVE_BLOCK'', ''MOVE_BLOCK_UP'', ''MOVE_BLOCK_DOWN'',
                             ''UPDATE_FOCUS'', ''START_TYPING''] then is_str (a_uid a)
          else if t = ''TOGGLE_BLOCK_SELECTED'' then is_str (a_uid a) \<and> a_selected a \<noteq> None
          else if t = ''TOGGLE_BLOCK_HOVERED'' then is_str (a_uid a) \<and> a_hovered a \<noteq> None
          else if t = ''SWITCH_MODE'' then is_str (a_mode a)
          else if t = ''POST_UPDATE_REQUEST_SUCCESS'' then a_post a \<noteq> None
          else t \<in> set [''TOGGLE_SIDEBAR'', ''POST_UPDATE_REQUEST'', ''POST_UPDATE_REQUEST_FAILURE'']
      | _ \<Rightarrow> False)"

text \<open>The identifiers in the order list are exactly the keys of the block map.\<close>

definition content_inv :: "bmap \<Rightarrow> jsval list \<Rightarrow> bool" where
  "content_inv m order = (set order = Str ` dom m)"

text \<open>
  An update, a type switch and a move name a block by its identifier; the identifier is
  known when it is in the order list. A remove hands its identifier to \<^verbatim>\<open>omit\<close>, which
  deletes it as a key when it is one.
\<close>

definition targets_known :: "bmap \<Rightarrow> jsval list \<Rightarrow> action \<Rightarrow> bool" where
  "targets_known m order a =
     ((handles [''UPDATE_BLOCK'', ''SWITCH_BLOCK_TYPE'', ''MOVE_BLOCK_UP'', ''MOVE_BLOCK_DOWN''] a
         \<longrightarrow> a_uid a \<in> set order) \<and>
      (handles [''REMOVE_BLOCK''] a \<longrightarrow> isKey (a_uid a) m))"

text \<open>
  The block map and the order list after one action: both slices handle the same action,
  and the transition throws when one of them does.
\<close>

definition content_after ::
  "(bmap \<Rightarrow> string \<Rightarrow> bmap) \<Rightarrow> bmap \<Rightarrow> jsval list \<Rightarrow> action
     \<Rightarrow> js_error + bmap \<times> jsval list" where
  "content_after unset m order a =
     (case blocksByUid unset m a of
        Inl e \<Rightarrow> Inl e
      | Inr rm \<Rightarrow>
          (case blockOrder order a of
             Inl e \<Rightarrow> Inl e
           | Inr ro \<Rightarrow> Inr (resolve m rm, resolve order ro)))"

text \<open>Exchanging the entries at positions \<open>i\<close> and \<open>i + 1\<close>.\<close>

definition swap_adjacent :: "nat \<Rightarrow> 'a list \<Rightarrow> 'a list" where
  "swap_adjacent i xs = xs[i := xs ! Suc i, Suc i := xs ! i]"

definition adjacent_swap :: "'a list \<Rightarrow> 'a list \<Rightarrow> bool" where
  "adjacent_swap xs ys = list_ex (\<lambda>i. ys = swap_adjacent i xs) [0..<length xs - 1]"

text \<open>Concrete inputs: an action with a type only, and a block node with a \<^verbatim>\<open>uid\<close> only.\<close>

definition no_props :: action where
  "no_props =
     \<lparr>a_type = Undefined, a_post = None, a_blockNodes = None, a_uid = Undefined,
      a_updates = None, a_block = None, a_after = Undefined, a_selected = None,
      a_hovered = None, a_config = None, a_mode = Undefined, a_error = Undefined,
      a_isNew = None\<rparr>"

definition empty_snapshot :: snapshot where
  "empty_snapshot = \<lparr>s_post = None, s_blocksByUid = Map.empty, s_blockOrder = []\<rparr>"

definition event :: "string \<Rightarrow> action" where
  "event t = no_props\<lparr>a_type := Str t\<rparr>"

definition node :: "string \<Rightarrow> block" where
  "node u = \<lparr>block_uid = Str u, blockType = None, attributes = None\<rparr>"

section \<open>Facts about the array operations\<close>

lemma indexOf_from_absent: "x \<notin> set xs \<Longrightarrow> indexOf_from xs x i = - 1"
  by (induction xs arbitrary: i) auto

lemma indexOf_from_present:
  "x \<in> set xs \<Longrightarrow>
   \<exists>n<length xs. indexOf_from xs x i = i + int n \<and> xs ! n = x \<and> x \<notin> set (take n xs)"
proof (induction xs arbitrary: i)
  case Nil
  then show ?case by simp
next
  case (Cons y ys)
  show ?case
  proof (cases "y = x")
    case True
    then show ?thesis by (intro exI[of _ 0]) simp
  next
    case False
    with Cons.prems have "x \<in> set ys" by simp
    from Cons.IH[OF this, of "i + 1"] obtain n where
      n: "n < length ys" "indexOf_from ys x (i + 1) = i + 1 + int n" "ys ! n = x"
         "x \<notin> set (take n ys)" by blast
    with False show ?thesis by (intro exI[of _ "Suc n"]) auto
  qed
qed

lemma indexOf_present:
  "x \<in> set xs \<Longrightarrow> \<exists>n<length xs. indexOf xs x = int n \<and> xs ! n = x \<and> x \<notin> set (take n xs)"
  using indexOf_from_present[of x xs 0] by (simp add: indexOf_def)

lemma indexOf_absent: "x \<notin> set xs \<Longrightarrow> indexOf xs x = - 1"
  by (simp add: indexOf_def indexOf_from_absent)

lemma slice_prefix: "slice xs 0 (Some (int n)) = take n xs"
  by (simp add: slice_def slice_bound_def min_def)

lemma slice_suffix: "slice xs (int n) None = drop n xs"
  by (simp add: slice_def slice_bound_def min_def)

lemma slice_split: "slice xs 0 (Some p) @ slice xs p None = xs"
  by (auto simp: slice_def slice_bound_def min_def max_def)

lemma take_swap_drop:
  "Suc i < length xs \<Longrightarrow>
   take i xs @ [xs ! Suc i, xs ! i] @ drop (Suc (Suc i)) xs = swap_adjacent i xs"
proof (induction xs arbitrary: i)
  case Nil
  then show ?case by simp
next
  case (Cons y ys)
  show ?case
  proof (cases i)
    case 0
    with Cons.prems show ?thesis by (cases ys) (simp_all add: swap_adjacent_def)
  next
    case (Suc j)
    with Cons.prems have "Suc j < length ys" by simp
    from Cons.IH[OF this] Suc show ?thesis by (simp add: swap_adjacent_def)
  qed
qed

lemma set_swap_adjacent: "Suc i < length xs \<Longrightarrow> set (swap_adjacent i xs) = set xs"
  unfolding swap_adjacent_def by (simp add: set_swap)

lemma length_swap_adjacent: "length (swap_adjacent i xs) = length xs"
  by (simp add: swap_adjacent_def)

text \<open>A move of an identifier that is in the list, and is not at the guarded end.\<close>

lemma move_up_present:
  assumes t: "a_type a = Str ''MOVE_BLOCK_UP''" and mem: "a_uid a \<in> set xs"
    and nf: "a_uid a \<noteq> at xs 0"
  shows "\<exists>i. Suc i < length xs \<and> xs ! Suc i = a_uid a \<and> a_uid a \<notin> set (take (Suc i) xs) \<and>
             blockOrder xs a = Inr (Fresh (swap_adjacent i xs))"
proof -
  from indexOf_present[OF mem] obtain n where
    n: "n < length xs" "indexOf xs (a_uid a) = int n" "xs ! n = a_uid a"
       "a_uid a \<notin> set (take n xs)" by blast
  have "n \<noteq> 0"
  proof
    assume "n = 0"
    with n have "at xs 0 = a_uid a" by (simp add: at_def)
    with nf show False by simp
  qed
  then obtain i where i: "n = Suc i" by (cases n) auto
  have s1: "slice xs 0 (Some (int n - 1)) = take i xs"
    using slice_prefix[of xs i] i by simp
  have s2: "slice xs (int n + 1) None = drop (Suc (Suc i)) xs"
    using slice_suffix[of xs "Suc (Suc i)"] i by (simp add: add.commute)
  have s3: "at xs (int n - 1) = xs ! i"
    using n i by (simp add: at_def)
  have "blockOrder xs a = Inr (Fresh (take i xs @ [xs ! Suc i, xs ! i] @ drop (Suc (Suc i)) xs))"
    using t nf n i s1 s2 s3 by (simp add: blockOrder_def Let_def)
  with take_swap_drop[of i xs] n i show ?thesis by auto
qed

lemma move_down_present:
  assumes t: "a_type a = Str ''MOVE_BLOCK_DOWN''" and mem: "a_uid a \<in> set xs"
    and nl: "a_uid a \<noteq> last_of xs"
  shows "\<exists>i. Suc i < length xs \<and> xs ! i = a_uid a \<and> a_uid a \<notin> set (take i xs) \<and>
             blockOrder xs a = Inr (Fresh (swap_adjacent i xs))"
proof -
  from indexOf_present[OF mem] obtain n where
    n: "n < length xs" "indexOf xs (a_uid a) = int n" "xs ! n = a_uid a"
       "a_uid a \<notin> set (take n xs)" by blast
  from mem have ne: "xs \<noteq> []" by auto
  with nl have "last xs \<noteq> a_uid a" by (auto simp: last_of_def split: list.splits)
  with n ne have "n \<noteq> length xs - 1" by (auto simp: last_conv_nth)
  with n have lt: "Suc n < length xs" by simp
  have s1: "slice xs 0 (Some (int n)) = take n xs" by (rule slice_prefix)
  have s2: "slice xs (int n + 2) None = drop (Suc (Suc n)) xs"
    using slice_suffix[of xs "Suc (Suc n)"] by (simp add: add.commute)
  have s3: "at xs (int n + 1) = xs ! Suc n"
    using lt by (simp add: at_def nat_add_distrib)
  have "blockOrder xs a = Inr (Fresh (take n xs @ [xs ! Suc n, xs ! n] @ drop (Suc (Suc n)) xs))"
    using t nl n s1 s2 s3 by (simp add: blockOrder_def Let_def)
  with take_swap_drop[OF lt] n lt show ?thesis by auto
qed

lemma adjacent_swap_iff:
  "adjacent_swap xs ys \<longleftrightarrow> (\<exists>i. Suc i < length xs \<and> ys = swap_adjacent i xs)"
  by (simp add: adjacent_swap_def list_ex_iff less_diff_conv Bex_def)

lemma at_first: "xs \<noteq> [] \<Longrightarrow> at xs 0 = hd xs"
  by (cases xs) (simp_all add: at_def)

lemma last_of_last: "xs \<noteq> [] \<Longrightarrow> last_of xs = last xs"
  by (cases xs) (simp_all add: last_of_def)

lemma without_removeAll: "without xs v = removeAll v xs"
  by (induction xs) (auto simp: without_def)

lemma length_removeAll_count: "length (removeAll v xs) + count_list xs v = length xs"
  by (induction xs) simp_all

lemma removeAll_once: "count_list xs v = 1 \<Longrightarrow> removeAll v xs = remove1 v xs"
proof (induction xs)
  case Nil
  then show ?case by simp
next
  case (Cons y ys)
  show ?case
  proof (cases "y = v")
    case True
    with Cons.prems have "count_list ys v = 0" by simp
    then have "v \<notin> set ys" by (simp add: count_list_0_iff)
    with True show ?thesis by simp
  next
    case False
    with Cons show ?thesis by simp
  qed
qed

lemma count_list_insert_at:
  "count_list (slice xs 0 (Some p) @ [u] @ slice xs p None) v
     = count_list xs v + (if u = v then 1 else 0)"
proof -
  have "count_list xs v = count_list (slice xs 0 (Some p) @ slice xs p None) v"
    by (simp only: slice_split)
  then show ?thesis by simp
qed

lemma set_insert_at: "set (slice xs 0 (Some p) @ [u] @ slice xs p None) = insert u (set xs)"
proof -
  have "set xs = set (slice xs 0 (Some p) @ slice xs p None)"
    by (simp only: slice_split)
  then show ?thesis by auto
qed

lemma insert_block_order:
  assumes "a_type a = Str ''INSERT_BLOCK''" "a_block a = Some b"
  shows "\<exists>p. blockOrder order a
            = Inr (Fresh (slice order 0 (Some p) @ [block_uid b] @ slice order p None))"
  using assms by (auto simp: blockOrder_def Let_def)

lemma insert_after_absent_anchor:
  assumes "a_type a = Str ''INSERT_BLOCK''" "a_block a = Some b"
    "truthy (a_after a)" "a_after a \<notin> set order"
  shows "blockOrder order a = Inr (Fresh (block_uid b # order))"
  using assms slice_prefix[of order 0] slice_suffix[of order 0]
  by (simp add: blockOrder_def indexOf_absent)

lemma insert_without_anchor:
  assumes "a_type a = Str ''INSERT_BLOCK''" "a_block a = Some b" "\<not> truthy (a_after a)"
  shows "blockOrder order a = Inr (Fresh (order @ [block_uid b]))"
  using assms slice_prefix[of order "length order"] slice_suffix[of order "length order"]
  by (simp add: blockOrder_def)

text \<open>What \<^verbatim>\<open>omit\<close> does with a key.\<close>

lemma reIsDeepProp_examples:
  "reIsDeepProp ''kumquat.attributes''" "reIsDeepProp ''[x]''" "reIsDeepProp ''a[0].b''"
  "\<not> reIsDeepProp ''kumquat''" "\<not> reIsDeepProp ''a[b''" "\<not> reIsDeepProp ''a]b[''"
  by (simp_all add: reIsDeepProp_def)

lemma isKey_plain: "\<not> reIsDeepProp s \<Longrightarrow> isKey (Str s) m"
  by (simp add: isKey_def)

lemma isKey_present: "key_of v \<in> dom m \<Longrightarrow> isKey v m"
  by (cases v) (auto simp: isKey_def)

lemma omit_key: "isKey v m \<Longrightarrow> omit unset m v = m(key_of v := None)"
  by (simp add: omit_def)

section \<open>Unknown kinds and totality\<close>




section \<open>Selection, hover and request status\<close>

text \<open>
  C7: on a \<^verbatim>\<open>TOGGLE_BLOCK_SELECTED\<close> action, selecting the identifier that is already
  selected returns the same selection state (the same reference); deselecting the selected
  identifier returns a new empty object; deselecting any other identifier returns the same
  reference.
\<close>

theorem toggle_block_selected:
  assumes "a_type a = Str ''TOGGLE_BLOCK_SELECTED''"
  shows "(a_selected a = Some True \<and> a_uid a = sel_uid s \<longrightarrow> selectedBlock s a = Inr Same) \<and>
         (a_selected a \<noteq> Some True \<and> a_uid a = sel_uid s
            \<longrightarrow> selectedBlock s a = Inr (Fresh empty_selection)) \<and>
         (a_selected a \<noteq> Some True \<and> a_uid a \<noteq> sel_uid s \<longrightarrow> selectedBlock s a = Inr Same)"
  using assms by (auto simp: selectedBlock_def)

theorem toggle_block_selected_witness:
  "selectedBlock \<lparr>sel_uid = Str ''kumquat'', typing = Some True, focus = Some []\<rparr>
     ((event ''TOGGLE_BLOCK_SELECTED'')\<lparr>a_uid := Str ''kumquat'', a_selected := Some True\<rparr>)
     = Inr Same \<and>
   selectedBlock \<lparr>sel_uid = Str ''kumquat'', typing = Some True, focus = Some []\<rparr>
     ((event ''TOGGLE_BLOCK_SELECTED'')\<lparr>a_uid := Str ''kumquat'', a_selected := Some False\<rparr>)
     = Inr (Fresh empty_selection) \<and>
   selectedBlock \<lparr>sel_uid = Str ''loquat'', typing = Some True, focus = Some []\<rparr>
     ((event ''TOGGLE_BLOCK_SELECTED'')\<lparr>a_uid := Str ''kumquat'', a_selected := Some False\<rparr>)
     = Inr Same"
  using
    toggle_block_selected[of
      "(event ''TOGGLE_BLOCK_SELECTED'')\<lparr>a_uid := Str ''kumquat'', a_selected := Some True\<rparr>"
      "\<lparr>sel_uid = Str ''kumquat'', typing = Some True, focus = Some []\<rparr>"]
    toggle_block_selected[of
      "(event ''TOGGLE_BLOCK_SELECTED'')\<lparr>a_uid := Str ''kumquat'', a_selected := Some False\<rparr>"
      "\<lparr>sel_uid = Str ''kumquat'', typing = Some True, focus = Some []\<rparr>"]
    toggle_block_selected[of
      "(event ''TOGGLE_BLOCK_SELECTED'')\<lparr>a_uid := Str ''kumquat'', a_selected := Some False\<rparr>"
      "\<lparr>sel_uid = Str ''loquat'', typing = Some True, focus = Some []\<rparr>"]
  by (simp add: event_def no_props_def)

text \<open>
  C8: a \<^verbatim>\<open>TOGGLE_BLOCK_HOVERED\<close> action makes the hover state the action's identifier
  when its \<^verbatim>\<open>hovered\<close> flag is set and \<^verbatim>\<open>null\<close> otherwise; a
  \<^verbatim>\<open>TOGGLE_BLOCK_SELECTED\<close> action with \<^verbatim>\<open>selected\<close> true makes it \<^verbatim>\<open>null\<close>; a
  \<^verbatim>\<open>START_TYPING\<close> action makes it \<^verbatim>\<open>null\<close>, whatever its identifier.
\<close>

theorem hovered_block_transitions:
  "(a_type a = Str ''TOGGLE_BLOCK_HOVERED''
      \<longrightarrow> hoveredBlock s a = (if a_hovered a = Some True then a_uid a else Null)) \<and>
   (a_type a = Str ''TOGGLE_BLOCK_SELECTED'' \<and> a_selected a = Some True
      \<longrightarrow> hoveredBlock s a = Null) \<and>
   (a_type a = Str ''START_TYPING'' \<longrightarrow> hoveredBlock s a = Null)"
  by (simp add: hoveredBlock_def)

theorem hovered_block_transitions_witness:
  "hoveredBlock Null ((event ''TOGGLE_BLOCK_HOVERED'')\<lparr>a_uid := Str ''kumquat'', a_hovered := Some True\<rparr>)
     = Str ''kumquat'' \<and>
   hoveredBlock (Str ''kumquat'')
     ((event ''TOGGLE_BLOCK_HOVERED'')\<lparr>a_uid := Str ''kumquat'', a_hovered := Some False\<rparr>) = Null \<and>
   hoveredBlock (Str ''kumquat'')
     ((event ''TOGGLE_BLOCK_SELECTED'')\<lparr>a_uid := Str ''kumquat'', a_selected := Some True\<rparr>) = Null \<and>
   hoveredBlock (Str ''kumquat'') ((event ''START_TYPING'')\<lparr>a_uid := Str ''loquat''\<rparr>) = Null"
  using
    hovered_block_transitions[of
      "(event ''TOGGLE_BLOCK_HOVERED'')\<lparr>a_uid := Str ''kumquat'', a_hovered := Some True\<rparr>" Null]
    hovered_block_transitions[of
      "(event ''TOGGLE_BLOCK_HOVERED'')\<lparr>a_uid := Str ''kumquat'', a_hovered := Some False\<rparr>"
      "Str ''kumquat''"]
    hovered_block_transitions[of
      "(event ''TOGGLE_BLOCK_SELECTED'')\<lparr>a_uid := Str ''kumquat'', a_selected := Some True\<rparr>"
      "Str ''kumquat''"]
    hovered_block_transitions[of "(event ''START_TYPING'')\<lparr>a_uid := Str ''loquat''\<rparr>"
      "Str ''kumquat''"]
  by (simp add: event_def no_props_def)

text \<open>
  C9: a \<^verbatim>\<open>POST_UPDATE_REQUEST_FAILURE\<close> action yields the status record with
  \<^verbatim>\<open>requesting\<close> false, \<^verbatim>\<open>successful\<close> true, the action's error and the action's
  \<^verbatim>\<open>isNew\<close> flag, whatever the prior status: the successful flag is true although the
  request failed.
\<close>

theorem request_failure_status:
  "a_type a = Str ''POST_UPDATE_REQUEST_FAILURE'' \<Longrightarrow>
   api s a = Fresh \<lparr>requesting = Some False, successful = Some True, error = a_error a,
                    isNew = a_isNew a\<rparr>"
  by (simp add: api_def)

theorem request_failure_status_witness:
  "api \<lparr>requesting = Some True, successful = Some False, error = Null, isNew = Some True\<rparr>
     ((event ''POST_UPDATE_REQUEST_FAILURE'')\<lparr>a_error := Str ''offline'', a_isNew := Some True\<rparr>)
   = Fresh \<lparr>requesting = Some False, successful = Some True, error = Str ''offline'',
            isNew = Some True\<rparr>"
  using request_failure_status[of
      "(event ''POST_UPDATE_REQUEST_FAILURE'')\<lparr>a_error := Str ''offline'', a_isNew := Some True\<rparr>"
      "\<lparr>requesting = Some True, successful = Some False, error = Null, isNew = Some True\<rparr>"]
  by (simp add: event_def no_props_def)

section \<open>Moving blocks\<close>

text \<open>
  C5 (amended): for a move whose identifier is in the order list, moving the first
  identifier up and moving the last identifier down return the order list as the same
  reference; every other such move returns the list in which the first occurrence of the
  identifier and its neighbour (the entry before it for a move up, the entry after it for
  a move down) are exchanged, every other position unchanged. The block map is returned
  as the same reference by every move, whatever its identifier.
\<close>

theorem move_block_known:
  "(a_uid a \<in> set order \<longrightarrow>
      (a_type a = Str ''MOVE_BLOCK_UP'' \<longrightarrow>
         (a_uid a = hd order \<longrightarrow> blockOrder order a = Inr Same) \<and>
         (a_uid a \<noteq> hd order \<longrightarrow>
            (\<exists>i. Suc i < length order \<and> order ! Suc i = a_uid a \<and>
                 a_uid a \<notin> set (take (Suc i) order) \<and>
                 blockOrder order a = Inr (Fresh (swap_adjacent i order))))) \<and>
      (a_type a = Str ''MOVE_BLOCK_DOWN'' \<longrightarrow>
         (a_uid a = last order \<longrightarrow> blockOrder order a = Inr Same) \<and>
         (a_uid a \<noteq> last order \<longrightarrow>
            (\<exists>i. Suc i < length order \<and> order ! i = a_uid a \<and>
                 a_uid a \<notin> set (take i order) \<and>
                 blockOrder order a = Inr (Fresh (swap_adjacent i order)))))) \<and>
   (handles [''MOVE_BLOCK_UP'', ''MOVE_BLOCK_DOWN''] a \<longrightarrow> blocksByUid unset m a = Inr Same)"
proof -
  have up_first: "blockOrder order a = Inr Same"
    if "a_uid a \<in> set order" "a_type a = Str ''MOVE_BLOCK_UP''" "a_uid a = hd order"
  proof -
    from that(1) have "order \<noteq> []" by auto
    with that(2,3) at_first[of order] show ?thesis by (simp add: blockOrder_def)
  qed
  have up_other: "\<exists>i. Suc i < length order \<and> order ! Suc i = a_uid a \<and>
                      a_uid a \<notin> set (take (Suc i) order) \<and>
                      blockOrder order a = Inr (Fresh (swap_adjacent i order))"
    if "a_uid a \<in> set order" "a_type a = Str ''MOVE_BLOCK_UP''" "a_uid a \<noteq> hd order"
  proof -
    from that(1) have "order \<noteq> []" by auto
    with that(3) at_first[of order] have "a_uid a \<noteq> at order 0" by simp
    from move_up_present[OF that(2) that(1) this] show ?thesis .
  qed
  have down_last: "blockOrder order a = Inr Same"
    if "a_uid a \<in> set order" "a_type a = Str ''MOVE_BLOCK_DOWN''" "a_uid a = last order"
  proof -
    from that(1) have "order \<noteq> []" by auto
    with that(2,3) last_of_last[of order] show ?thesis by (simp add: blockOrder_def)
  qed
  have down_other: "\<exists>i. Suc i < length order \<and> order ! i = a_uid a \<and>
                        a_uid a \<notin> set (take i order) \<and>
                        blockOrder order a = Inr (Fresh (swap_adjacent i order))"
    if "a_uid a \<in> set order" "a_type a = Str ''MOVE_BLOCK_DOWN''" "a_uid a \<noteq> last order"
  proof -
    from that(1) have "order \<noteq> []" by auto
    with that(3) last_of_last[of order] have "a_uid a \<noteq> last_of order" by simp
    from move_down_present[OF that(2) that(1) this] show ?thesis .
  qed
  have map_same: "blocksByUid unset m a = Inr Same"
    if "handles [''MOVE_BLOCK_UP'', ''MOVE_BLOCK_DOWN''] a"
    using that by (auto simp: handles_def blocksByUid_def)
  from up_first up_other down_last down_other map_same show ?thesis by blast
qed

theorem move_block_known_witness:
  "blockOrder [Str ''chicken'', Str ''ribs''] ((event ''MOVE_BLOCK_UP'')\<lparr>a_uid := Str ''chicken''\<rparr>)
     = Inr Same \<and>
   blockOrder [Str ''chicken'', Str ''ribs''] ((event ''MOVE_BLOCK_DOWN'')\<lparr>a_uid := Str ''ribs''\<rparr>)
     = Inr Same \<and>
   blockOrder [Str ''chicken'', Str ''ribs''] ((event ''MOVE_BLOCK_UP'')\<lparr>a_uid := Str ''ribs''\<rparr>)
     = Inr (Fresh [Str ''ribs'', Str ''chicken'']) \<and>
   blockOrder [Str ''chicken'', Str ''ribs''] ((event ''MOVE_BLOCK_DOWN'')\<lparr>a_uid := Str ''chicken''\<rparr>)
     = Inr (Fresh [Str ''ribs'', Str ''chicken'']) \<and>
   blockOrder [Str ''b'', Str ''a'', Str ''c'', Str ''a''] ((event ''MOVE_BLOCK_UP'')\<lparr>a_uid := Str ''a''\<rparr>)
     = Inr (Fresh [Str ''a'', Str ''b'', Str ''c'', Str ''a'']) \<and>
   blocksByUid drop_key Map.empty ((event ''MOVE_BLOCK_UP'')\<lparr>a_uid := Str ''steak''\<rparr>) = Inr Same"
proof -
  let ?order = "[Str ''chicken'', Str ''ribs'']"
  let ?dup = "[Str ''b'', Str ''a'', Str ''c'', Str ''a'']"
  have swap: "r = Inr (Fresh [Str ''ribs'', Str ''chicken''])"
    if "\<exists>i. Suc i < length ?order \<and> r = Inr (Fresh (swap_adjacent i ?order))" for r
  proof -
    from that obtain i where i: "Suc i < length ?order" "r = Inr (Fresh (swap_adjacent i ?order))"
      by blast
    from i(1) have "i = 0" by simp
    with i(2) show ?thesis by (simp add: swap_adjacent_def)
  qed
  have 1: "blockOrder ?order ((event ''MOVE_BLOCK_UP'')\<lparr>a_uid := Str ''chicken''\<rparr>) = Inr Same"
    using move_block_known[of "(event ''MOVE_BLOCK_UP'')\<lparr>a_uid := Str ''chicken''\<rparr>" ?order]
    by (simp add: event_def no_props_def)
  have 2: "blockOrder ?order ((event ''MOVE_BLOCK_DOWN'')\<lparr>a_uid := Str ''ribs''\<rparr>) = Inr Same"
    using move_block_known[of "(event ''MOVE_BLOCK_DOWN'')\<lparr>a_uid := Str ''ribs''\<rparr>" ?order]
    by (simp add: event_def no_props_def)
  have 3: "blockOrder ?order ((event ''MOVE_BLOCK_UP'')\<lparr>a_uid := Str ''ribs''\<rparr>)
             = Inr (Fresh [Str ''ribs'', Str ''chicken''])"
    using move_block_known[of "(event ''MOVE_BLOCK_UP'')\<lparr>a_uid := Str ''ribs''\<rparr>" ?order]
    by (intro swap) (auto simp: event_def no_props_def)
  have 4: "blockOrder ?order ((event ''MOVE_BLOCK_DOWN'')\<lparr>a_uid := Str ''chicken''\<rparr>)
             = Inr (Fresh [Str ''ribs'', Str ''chicken''])"
    using move_block_known[of "(event ''MOVE_BLOCK_DOWN'')\<lparr>a_uid := Str ''chicken''\<rparr>" ?order]
    by (intro swap) (auto simp: event_def no_props_def)
  have 5: "blockOrder ?dup ((event ''MOVE_BLOCK_UP'')\<lparr>a_uid := Str ''a''\<rparr>)
             = Inr (Fresh [Str ''a'', Str ''b'', Str ''c'', Str ''a''])"
  proof -
    from move_block_known[of "(event ''MOVE_BLOCK_UP'')\<lparr>a_uid := Str ''a''\<rparr>" ?dup]
    obtain i where i: "Suc i < length ?dup" "?dup ! Suc i = Str ''a''"
      "Str ''a'' \<notin> set (take (Suc i) ?dup)"
      "blockOrder ?dup ((event ''MOVE_BLOCK_UP'')\<lparr>a_uid := Str ''a''\<rparr>)
         = Inr (Fresh (swap_adjacent i ?dup))"
      by (auto simp: event_def no_props_def)
    from i(1) consider "i = 0" | "i = 1" | "i = 2" by fastforce
    then have "i = 0"
    proof cases
      case 1
      then show ?thesis .
    next
      case 2
      with i(2) show ?thesis by simp
    next
      case 3
      with i(3) show ?thesis by (simp add: numeral_3_eq_3)
    qed
    with i(4) show ?thesis by (simp add: swap_adjacent_def)
  qed
  have 6: "blocksByUid drop_key Map.empty ((event ''MOVE_BLOCK_UP'')\<lparr>a_uid := Str ''steak''\<rparr>)
             = Inr Same"
    using move_block_known[of "(event ''MOVE_BLOCK_UP'')\<lparr>a_uid := Str ''steak''\<rparr>" "[]"
        drop_key Map.empty]
    by (simp add: event_def no_props_def handles_def)
  from 1 2 3 4 5 6 show ?thesis by blast
qed

text \<open>
  C5 as stated covers every move that does not name the first (up) or last (down)
  identifier. A move up of an identifier that is not in the list finds index \<open>-1\<close> and
  returns a list that is two entries longer, holding \<^verbatim>\<open>undefined\<close>: no exchange of two
  adjacent entries.
\<close>

theorem move_unknown_counterexample:
  "[Str ''chicken'', Str ''ribs''] \<noteq> [] \<and>
   a_uid ((event ''MOVE_BLOCK_UP'')\<lparr>a_uid := Str ''steak''\<rparr>) \<noteq> hd [Str ''chicken'', Str ''ribs''] \<and>
   blockOrder [Str ''chicken'', Str ''ribs''] ((event ''MOVE_BLOCK_UP'')\<lparr>a_uid := Str ''steak''\<rparr>)
     = Inr (Fresh [Str ''steak'', Undefined, Str ''chicken'', Str ''ribs'']) \<and>
   \<not> adjacent_swap [Str ''chicken'', Str ''ribs'']
       [Str ''steak'', Undefined, Str ''chicken'', Str ''ribs'']"
  by (simp add: event_def no_props_def blockOrder_def indexOf_def at_def slice_def slice_bound_def
      adjacent_swap_def swap_adjacent_def)

section \<open>Removing and inserting blocks\<close>

text \<open>
  C6 (amended): a \<^verbatim>\<open>REMOVE_BLOCK\<close> action returns a new block map, which is the old one
  without the identifier's key whenever lodash reads the identifier as a key (it is a key
  of the map, or a string with no dot and no closing bracket after an opening one, or
  \<^verbatim>\<open>null\<close> or \<^verbatim>\<open>undefined\<close>); and it removes every occurrence of the identifier from the
  order list, keeping the other entries in order: the list shrinks by the number of
  occurrences, which is exactly one occurrence when the identifier occurs once.
\<close>

theorem remove_block_all_occurrences:
  assumes "a_type a = Str ''REMOVE_BLOCK''"
  shows "(isKey (a_uid a) m
            \<longrightarrow> blocksByUid unset m a = Inr (Fresh (m(key_of (a_uid a) := None)))) \<and>
         (\<exists>m'. blocksByUid unset m a = Inr (Fresh m')) \<and>
         blockOrder order a = Inr (Fresh (removeAll (a_uid a) order)) \<and>
         length (removeAll (a_uid a) order) + count_list order (a_uid a) = length order \<and>
         (count_list order (a_uid a) = 1
            \<longrightarrow> removeAll (a_uid a) order = remove1 (a_uid a) order)"
  using assms
  by (simp add: blocksByUid_def blockOrder_def omit_key without_removeAll
      length_removeAll_count removeAll_once)

theorem remove_block_all_occurrences_witness:
  "isKey (Str ''chicken'') [''chicken'' \<mapsto> Some (node ''chicken''), ''ribs'' \<mapsto> Some (node ''ribs'')] \<and>
   blocksByUid drop_key [''chicken'' \<mapsto> Some (node ''chicken''), ''ribs'' \<mapsto> Some (node ''ribs'')]
     ((event ''REMOVE_BLOCK'')\<lparr>a_uid := Str ''chicken''\<rparr>)
     = Inr (Fresh ([''chicken'' \<mapsto> Some (node ''chicken''), ''ribs'' \<mapsto> Some (node ''ribs'')]
                     (''chicken'' := None))) \<and>
   blockOrder [Str ''chicken'', Str ''ribs''] ((event ''REMOVE_BLOCK'')\<lparr>a_uid := Str ''chicken''\<rparr>)
     = Inr (Fresh [Str ''ribs'']) \<and>
   count_list [Str ''chicken'', Str ''ribs''] (Str ''chicken'') = 1 \<and>
   [Str ''ribs''] = remove1 (Str ''chicken'') [Str ''chicken'', Str ''ribs'']"
proof -
  let ?m = "[''chicken'' \<mapsto> Some (node ''chicken''), ''ribs'' \<mapsto> Some (node ''ribs'')]"
  have k: "isKey (Str ''chicken'') ?m"
    by (simp add: isKey_def reIsDeepProp_def)
  from remove_block_all_occurrences[where a = "(event ''REMOVE_BLOCK'')\<lparr>a_uid := Str ''chicken''\<rparr>"
      and m = ?m and unset = drop_key and order = "[Str ''chicken'', Str ''ribs'']"] k
  show ?thesis by (simp add: event_def no_props_def)
qed

text \<open>
  C6 as stated removes exactly one occurrence. Inserting a block with the same
  \<^verbatim>\<open>uid\<close> twice, from the empty list, gives a list with two occurrences; removing
  the identifier then removes both.
\<close>

theorem remove_duplicate_counterexample:
  "blockOrder [] ((event ''INSERT_BLOCK'')\<lparr>a_block := Some (node ''ribs'')\<rparr>)
     = Inr (Fresh [Str ''ribs'']) \<and>
   blockOrder [Str ''ribs''] ((event ''INSERT_BLOCK'')\<lparr>a_block := Some (node ''ribs'')\<rparr>)
     = Inr (Fresh [Str ''ribs'', Str ''ribs'']) \<and>
   blockOrder [Str ''ribs'', Str ''ribs''] ((event ''REMOVE_BLOCK'')\<lparr>a_uid := Str ''ribs''\<rparr>)
     = Inr (Fresh []) \<and>
   length ([] :: jsval list) + 1 \<noteq> length [Str ''ribs'', Str ''ribs'']"
  by (simp add: event_def no_props_def node_def blockOrder_def without_def slice_def
      slice_bound_def)

text \<open>
  C10: an \<^verbatim>\<open>INSERT_BLOCK\<close> action whose block's \<^verbatim>\<open>uid\<close> is already a key of the block
  map overwrites that entry, leaving the set of keys as it was, and still adds the
  identifier to the order list as one more occurrence; where the list already held it, it
  now holds it at least twice.
\<close>

theorem insert_existing_uid_duplicates:
  assumes t: "a_type a = Str ''INSERT_BLOCK''" and b: "a_block a = Some b"
    and k: "key_of (block_uid b) \<in> dom m"
  shows "blocksByUid unset m a = Inr (Fresh (m(key_of (block_uid b) \<mapsto> Some b))) \<and>
         dom (m(key_of (block_uid b) \<mapsto> Some b)) = dom m \<and>
         (\<exists>order'. blockOrder order a = Inr (Fresh order') \<and>
            count_list order' (block_uid b) = Suc (count_list order (block_uid b)) \<and>
            (block_uid b \<in> set order \<longrightarrow> 2 \<le> count_list order' (block_uid b)))"
proof -
  have 1: "blocksByUid unset m a = Inr (Fresh (m(key_of (block_uid b) \<mapsto> Some b)))"
    using t b by (simp add: blocksByUid_def)
  have 2: "dom (m(key_of (block_uid b) \<mapsto> Some b)) = dom m"
    using k by auto
  from insert_block_order[OF t b] obtain p where
    p: "blockOrder order a
          = Inr (Fresh (slice order 0 (Some p) @ [block_uid b] @ slice order p None))" ..
  let ?order' = "slice order 0 (Some p) @ [block_uid b] @ slice order p None"
  have c: "count_list ?order' (block_uid b) = Suc (count_list order (block_uid b))"
    by (simp only: count_list_insert_at) simp
  have "2 \<le> count_list ?order' (block_uid b)" if "block_uid b \<in> set order"
  proof -
    from that have "count_list order (block_uid b) \<noteq> 0" by (simp add: count_list_0_iff)
    with c show ?thesis by simp
  qed
  with p c have "\<exists>order'. blockOrder order a = Inr (Fresh order') \<and>
            count_list order' (block_uid b) = Suc (count_list order (block_uid b)) \<and>
            (block_uid b \<in> set order \<longrightarrow> 2 \<le> count_list order' (block_uid b))"
    by blast
  with 1 2 show ?thesis by blast
qed

theorem insert_existing_uid_duplicates_witness:
  "blocksByUid drop_key [''ribs'' \<mapsto> Some (node ''ribs'')]
     ((event ''INSERT_BLOCK'')\<lparr>a_block := Some ((node ''ribs'')\<lparr>blockType := Some ''core/freeform''\<rparr>)\<rparr>)
     = Inr (Fresh ([''ribs'' \<mapsto> Some (node ''ribs'')]
                    (''ribs'' \<mapsto> Some ((node ''ribs'')\<lparr>blockType := Some ''core/freeform''\<rparr>)))) \<and>
   (\<exists>order'. blockOrder [Str ''ribs'']
       ((event ''INSERT_BLOCK'')\<lparr>a_block := Some ((node ''ribs'')\<lparr>blockType := Some ''core/freeform''\<rparr>)\<rparr>)
       = Inr (Fresh order') \<and> 2 \<le> count_list order' (Str ''ribs''))"
  using insert_existing_uid_duplicates[where
      a = "(event ''INSERT_BLOCK'')\<lparr>a_block := Some ((node ''ribs'')\<lparr>blockType := Some ''core/freeform''\<rparr>)\<rparr>"
      and b = "(node ''ribs'')\<lparr>blockType := Some ''core/freeform''\<rparr>"
      and m = "[''ribs'' \<mapsto> Some (node ''ribs'')]" and order = "[Str ''ribs'']"
      and unset = drop_key]
  by (auto simp: event_def no_props_def node_def)

text \<open>
  C2: the claim is that an insert whose anchor is not in the order list puts the new
  identifier at the end. In the code the failed lookup gives \<open>-1\<close>, the position is
  \<open>-1 + 1 = 0\<close> and the identifier is put first (\<open>insert_after_absent_anchor\<close>),
  while an insert with no anchor appends it (\<open>insert_without_anchor\<close>). Evaluated on
  the list of the test \<^emph>\<open>should insert after the specified block uid\<close> with an anchor
  that is not in it:
\<close>

theorem insert_after_absent_anchor_goes_first:
  "truthy (Str ''mango'') \<and> Str ''mango'' \<notin> set [Str ''kumquat'', Str ''loquat''] \<and>
   blockOrder [Str ''kumquat'', Str ''loquat'']
     ((event ''INSERT_BLOCK'')\<lparr>a_block := Some (node ''persimmon''), a_after := Str ''mango''\<rparr>)
     = Inr (Fresh [Str ''persimmon'', Str ''kumquat'', Str ''loquat''])"
  by (simp add: event_def no_props_def node_def blockOrder_def indexOf_def slice_def
      slice_bound_def)

section \<open>The order list and the keys of the block map\<close>

text \<open>One lemma for each kind the two slices handle.\<close>

lemma content_inv_initial: "content_inv Map.empty []"
  by (simp add: content_inv_def)

lemma is_str_key: "is_str v \<Longrightarrow> Str (key_of v) = v"
  by (cases v) simp_all

lemma dom_keyBy_from: "dom (keyBy_from m bs) = dom m \<union> (\<lambda>b. key_of (block_uid b)) ` set bs"
  by (induction bs arbitrary: m) auto

lemma known_key: "content_inv m order \<Longrightarrow> is_str v \<Longrightarrow> v \<in> set order \<Longrightarrow> key_of v \<in> dom m"
  by (cases v) (auto simp: content_inv_def)

lemma inv_edit_post:
  assumes t: "a_type a = Str ''EDIT_POST''" and d: "declared a"
  shows "\<exists>m' order'. content_after unset m order a = Inr (m', order') \<and> content_inv m' order'"
proof -
  from t d obtain nodes where n: "a_blockNodes a = Some nodes" "list_all has_uid nodes"
    by (auto simp: declared_def split: option.splits)
  have c: "content_after unset m order a = Inr (keyBy_from Map.empty nodes, map block_uid nodes)"
    using t n by (simp add: content_after_def blocksByUid_def blockOrder_def keyBy_def)
  have "Str ` (\<lambda>b. key_of (block_uid b)) ` set nodes = block_uid ` set nodes"
    using n(2) by (force simp: list_all_iff has_uid_def is_str_key image_iff)
  then have "content_inv (keyBy_from Map.empty nodes) (map block_uid nodes)"
    by (simp add: content_inv_def dom_keyBy_from)
  with c show ?thesis by blast
qed

lemma inv_write_known:
  assumes inv: "content_inv m order" and s: "is_str (a_uid a)" and k: "a_uid a \<in> set order"
    and t: "a_type a = Str ''UPDATE_BLOCK'' \<or> a_type a = Str ''SWITCH_BLOCK_TYPE''"
  shows "\<exists>m' order'. content_after unset m order a = Inr (m', order') \<and> content_inv m' order'"
proof -
  from known_key[OF inv s k] have "dom (m(key_of (a_uid a) \<mapsto> v)) = dom m" for v
    by auto
  with inv t show ?thesis
    by (auto simp: content_after_def blocksByUid_def blockOrder_def content_inv_def)
qed

lemma inv_insert:
  assumes inv: "content_inv m order" and t: "a_type a = Str ''INSERT_BLOCK''"
    and b: "a_block a = Some b" and u: "has_uid b"
  shows "\<exists>m' order'. content_after unset m order a = Inr (m', order') \<and> content_inv m' order'"
proof -
  from insert_block_order[OF t b] obtain p where
    p: "blockOrder order a
          = Inr (Fresh (slice order 0 (Some p) @ [block_uid b] @ slice order p None))" ..
  have m: "blocksByUid unset m a = Inr (Fresh (m(key_of (block_uid b) \<mapsto> Some b)))"
    using t b by (simp add: blocksByUid_def)
  have "content_inv (m(key_of (block_uid b) \<mapsto> Some b))
          (slice order 0 (Some p) @ [block_uid b] @ slice order p None)"
    using inv u unfolding content_inv_def set_insert_at
    by (simp add: has_uid_def is_str_key)
  with p m show ?thesis by (simp add: content_after_def)
qed

lemma inv_remove:
  assumes inv: "content_inv m order" and t: "a_type a = Str ''REMOVE_BLOCK''"
    and s: "is_str (a_uid a)" and k: "isKey (a_uid a) m"
  shows "\<exists>m' order'. content_after unset m order a = Inr (m', order') \<and> content_inv m' order'"
proof -
  from s obtain u where u: "a_uid a = Str u" by (cases "a_uid a") auto
  have c: "content_after unset m order a = Inr (m(u := None), without order (Str u))"
    using t u k by (simp add: content_after_def blocksByUid_def blockOrder_def omit_key)
  have "set (without order (Str u)) = Str ` dom (m(u := None))"
    using inv by (auto simp: content_inv_def without_def)
  with c show ?thesis by (simp add: content_inv_def)
qed

lemma inv_move:
  assumes inv: "content_inv m order" and k: "a_uid a \<in> set order"
    and t: "a_type a = Str ''MOVE_BLOCK_UP'' \<or> a_type a = Str ''MOVE_BLOCK_DOWN''"
  shows "\<exists>m' order'. content_after unset m order a = Inr (m', order') \<and> content_inv m' order'"
proof -
  have m: "blocksByUid unset m a = Inr Same"
    using t by (auto simp: blocksByUid_def)
  have "blockOrder order a = Inr Same \<or>
        (\<exists>i. Suc i < length order \<and> blockOrder order a = Inr (Fresh (swap_adjacent i order)))"
  proof (cases "a_type a = Str ''MOVE_BLOCK_UP''")
    case True
    show ?thesis
    proof (cases "a_uid a = at order 0")
      case first: True
      with True show ?thesis by (simp add: blockOrder_def)
    next
      case False
      from move_up_present[OF True k False] show ?thesis by blast
    qed
  next
    case False
    with t have down: "a_type a = Str ''MOVE_BLOCK_DOWN''" by simp
    show ?thesis
    proof (cases "a_uid a = last_of order")
      case True
      with down show ?thesis by (simp add: blockOrder_def)
    next
      case False
      from move_down_present[OF down k False] show ?thesis by blast
    qed
  qed
  then show ?thesis
  proof
    assume "blockOrder order a = Inr Same"
    with m inv show ?thesis by (simp add: content_after_def)
  next
    assume "\<exists>i. Suc i < length order \<and> blockOrder order a = Inr (Fresh (swap_adjacent i order))"
    then obtain i where i: "Suc i < length order"
      "blockOrder order a = Inr (Fresh (swap_adjacent i order))" by blast
    from inv set_swap_adjacent[OF i(1)] have "content_inv m (swap_adjacent i order)"
      by (simp add: content_inv_def)
    with m i(2) show ?thesis by (simp add: content_after_def)
  qed
qed

lemma inv_unhandled:
  assumes inv: "content_inv m order"
    and n: "\<not> handles blocksByUid_types a" "\<not> handles blockOrder_types a"
  shows "\<exists>m' order'. content_after unset m order a = Inr (m', order') \<and> content_inv m' order'"
proof -
  have "blocksByUid unset m a = Inr Same"
    using n(1) by (simp add: handles_def blocksByUid_types_def blocksByUid_def)
  moreover have "blockOrder order a = Inr Same"
    using n(2) by (simp add: handles_def blockOrder_types_def blockOrder_def)
  ultimately show ?thesis using inv by (simp add: content_after_def)
qed

text \<open>
  C1 (amended): if the identifiers in the order list are exactly the keys of the block
  map, they still are after the transition of both slices, for every action of the
  declared vocabulary and every action of a kind neither slice handles, provided that an
  update, a type switch and a move name an identifier that is in the order list, and that
  a remove names an identifier that lodash reads as a key (a key of the map, or a string
  with no dot and no closing bracket after an opening one). The transition does not
  throw.
\<close>

theorem content_invariant_preserved:
  assumes inv: "content_inv m order"
    and ev: "declared a \<or> \<not> (handles blocksByUid_types a \<or> handles blockOrder_types a)"
    and known: "targets_known m order a"
  shows "\<exists>m' order'. content_after unset m order a = Inr (m', order') \<and> content_inv m' order'"
proof (cases "handles blocksByUid_types a \<or> handles blockOrder_types a")
  case False
  with inv show ?thesis by (simp add: inv_unhandled)
next
  case True
  with ev have d: "declared a" by simp
  from True consider
      (edit) "a_type a = Str ''EDIT_POST''"
    | (upd) "a_type a = Str ''UPDATE_BLOCK'' \<or> a_type a = Str ''SWITCH_BLOCK_TYPE''"
    | (ins) "a_type a = Str ''INSERT_BLOCK''"
    | (rem) "a_type a = Str ''REMOVE_BLOCK''"
    | (move) "a_type a = Str ''MOVE_BLOCK_UP'' \<or> a_type a = Str ''MOVE_BLOCK_DOWN''"
    by (auto simp: handles_def blocksByUid_types_def blockOrder_types_def)
  then show ?thesis
  proof cases
    case edit
    from inv_edit_post[OF edit d] show ?thesis .
  next
    case upd
    with d have s: "is_str (a_uid a)" by (auto simp: declared_def)
    from upd known have k: "a_uid a \<in> set order" by (auto simp: targets_known_def handles_def)
    from inv_write_known[OF inv s k upd] show ?thesis .
  next
    case ins
    with d obtain b where b: "a_block a = Some b" "has_uid b"
      by (auto simp: declared_def split: option.splits)
    from inv_insert[OF inv ins b] show ?thesis .
  next
    case rem
    with d have s: "is_str (a_uid a)" by (auto simp: declared_def)
    from rem known have k: "isKey (a_uid a) m" by (simp add: targets_known_def handles_def)
    from inv_remove[OF inv rem s k] show ?thesis .
  next
    case move
    from move known have k: "a_uid a \<in> set order" by (auto simp: targets_known_def handles_def)
    from inv_move[OF inv k move] show ?thesis .
  qed
qed

theorem content_invariant_preserved_witness:
  "content_inv [''chicken'' \<mapsto> Some (node ''chicken'')] [Str ''chicken''] \<and>
   declared ((event ''UPDATE_BLOCK'')\<lparr>a_uid := Str ''chicken'', a_updates := Some empty_block\<rparr>) \<and>
   a_uid ((event ''UPDATE_BLOCK'')\<lparr>a_uid := Str ''chicken'', a_updates := Some empty_block\<rparr>)
     \<in> set [Str ''chicken''] \<and>
   (\<exists>m' order'. content_after drop_key [''chicken'' \<mapsto> Some (node ''chicken'')] [Str ''chicken'']
        ((event ''UPDATE_BLOCK'')\<lparr>a_uid := Str ''chicken'', a_updates := Some empty_block\<rparr>)
        = Inr (m', order') \<and> content_inv m' order') \<and>
   declared ((event ''REMOVE_BLOCK'')\<lparr>a_uid := Str ''chicken''\<rparr>) \<and>
   isKey (Str ''chicken'') [''chicken'' \<mapsto> Some (node ''chicken'')] \<and>
   (\<exists>m' order'. content_after drop_key [''chicken'' \<mapsto> Some (node ''chicken'')] [Str ''chicken'']
        ((event ''REMOVE_BLOCK'')\<lparr>a_uid := Str ''chicken''\<rparr>)
        = Inr (m', order') \<and> content_inv m' order')"
proof -
  let ?m = "[''chicken'' \<mapsto> Some (node ''chicken'')]"
  let ?order = "[Str ''chicken'']"
  let ?upd = "(event ''UPDATE_BLOCK'')\<lparr>a_uid := Str ''chicken'', a_updates := Some empty_block\<rparr>"
  let ?rem = "(event ''REMOVE_BLOCK'')\<lparr>a_uid := Str ''chicken''\<rparr>"
  have i: "content_inv ?m ?order"
    by (simp add: content_inv_def)
  have du: "declared ?upd"
    by (simp add: declared_def event_def no_props_def)
  have mu: "a_uid ?upd \<in> set ?order"
    by (simp add: event_def no_props_def)
  have ku: "targets_known ?m ?order ?upd"
    using mu by (simp add: targets_known_def handles_def event_def no_props_def)
  have dr: "declared ?rem"
    by (simp add: declared_def event_def no_props_def)
  have key: "isKey (Str ''chicken'') ?m"
    by (simp add: isKey_def)
  have kr: "targets_known ?m ?order ?rem"
    using key by (simp add: targets_known_def handles_def event_def no_props_def)
  from content_invariant_preserved[OF i _ ku, of drop_key]
       content_invariant_preserved[OF i _ kr, of drop_key] i du mu dr key
  show ?thesis by blast
qed

text \<open>
  C1 as stated covers every event. From the initial state (no blocks), an update
  of an identifier that no block has writes a key into the block map and leaves the
  order list empty.
\<close>

theorem update_unknown_block_counterexample:
  "content_inv Map.empty [] \<and>
   declared ((event ''UPDATE_BLOCK'')
      \<lparr>a_uid := Str ''kumquat'',
       a_updates := Some (empty_block\<lparr>attributes := Some [(''updated'', ''true'')]\<rparr>)\<rparr>) \<and>
   content_after drop_key Map.empty []
     ((event ''UPDATE_BLOCK'')
        \<lparr>a_uid := Str ''kumquat'',
         a_updates := Some (empty_block\<lparr>attributes := Some [(''updated'', ''true'')]\<rparr>)\<rparr>)
     = Inr ([''kumquat'' \<mapsto> Some (empty_block\<lparr>attributes := Some [(''updated'', ''true'')]\<rparr>)],
            []) \<and>
   \<not> content_inv
       [''kumquat'' \<mapsto> Some (empty_block\<lparr>attributes := Some [(''updated'', ''true'')]\<rparr>)] []"
  by (simp add: content_inv_def declared_def event_def no_props_def content_after_def
      blocksByUid_def blockOrder_def spread_def lookup_block_def empty_block_def)

section \<open>Loading a document resets the history\<close>

text \<open>
  C3: whatever the history record was (however long its past and future), an
  \<^verbatim>\<open>EDIT_POST\<close> action carrying its list of block nodes makes \<open>editor\<close> return a new
  history record whose past and future are empty. This is a statement about
  \<open>combineUndoableReducers\<close> as modelled from the specification.
\<close>

theorem edit_post_clears_history:
  assumes t: "a_type a = Str ''EDIT_POST''" and n: "a_blockNodes a = Some nodes"
  shows "\<exists>h'. editor unset undoType redoType depth h a = Inr (Fresh h')
              \<and> past h' = [] \<and> future h' = []"
proof -
  have "editor_slices unset (present h) a =
          Inr (\<lparr>s_post = resolve (s_post (present h)) (post (s_post (present h)) a),
                s_blocksByUid = keyBy (Some nodes), s_blockOrder = map block_uid nodes\<rparr>, True)"
    using t n by (simp add: editor_slices_def blocksByUid_def blockOrder_def)
  moreover have "handles [''EDIT_POST''] a"
    using t by (simp add: handles_def)
  ultimately show ?thesis
    by (simp add: editor_def combineUndoableReducers_def)
qed

theorem edit_post_clears_history_witness:
  "\<exists>h'. editor drop_key ''UNDO'' ''REDO'' None
          \<lparr>past = [empty_snapshot, empty_snapshot], present = empty_snapshot,
           future = [empty_snapshot]\<rparr>
          ((event ''EDIT_POST'')\<lparr>a_blockNodes := Some [node ''bananas'']\<rparr>) = Inr (Fresh h')
        \<and> past h' = [] \<and> future h' = []"
  using edit_post_clears_history[where
      a = "(event ''EDIT_POST'')\<lparr>a_blockNodes := Some [node ''bananas'']\<rparr>"
      and nodes = "[node ''bananas'']" and unset = drop_key
      and undoType = "''UNDO''" and redoType = "''REDO''" and depth = None
      and h = "\<lparr>past = [empty_snapshot, empty_snapshot], present = empty_snapshot,
                future = [empty_snapshot]\<rparr>"]
  by (simp add: event_def no_props_def)

end
